theory Spec2Isabelle
  imports Complex_Main
begin

section \<open>Neon Orb Catcher: the gameplay logic of src/App.tsx\<close>

text \<open>
  The embedding follows \<^verbatim>\<open>src/App.tsx\<close>. JavaScript numbers that hold
  counters, scores and ids are \<open>int\<close>; coordinates, speeds and the results of
  \<^verbatim>\<open>Math.random()\<close> are \<open>real\<close> (rounding of doubles is not modelled).
  React state is a record that every handler takes and returns; state updaters are
  applied in the order in which the source enqueues them. The two ambient inputs are
  explicit: \<^verbatim>\<open>Math.random()\<close> is a sequence \<open>rnd\<close> of reals of which the state
  counts how many were drawn, and \<^verbatim>\<open>Date.now()\<close> reads the field \<open>now\<close>,
  the clock in milliseconds, which advances only between handlers.
\<close>

subsection \<open>Data\<close>

type_synonym vec3 = "real \<times> real \<times> real"

record Orb =
  orb_id :: int
  orb_position :: vec3
  color :: "string option"
  points :: int

record Obstacle =
  obs_id :: int
  obs_position :: vec3
  speed :: real

datatype GameState = title | playing | gameover

text \<open>
  The \<^verbatim>\<open>useState\<close> cells of \<^verbatim>\<open>App\<close>, and the environment they run in:
  \<open>timers\<close> holds the due times of the pending \<^verbatim>\<open>setTimeout\<close> callbacks (all of
  them the replenishment closure of \<^verbatim>\<open>handleCollect\<close>), oldest first.
\<close>

record App =
  gameState :: GameState
  score :: int
  highScore :: int
  orbs :: "Orb list"
  obstacles :: "Obstacle list"
  lives :: int
  level :: int
  timers :: "int list"
  now :: int
  draws :: nat

text \<open>The state of the first render: the initial values of the \<^verbatim>\<open>useState\<close> calls.\<close>

definition initialApp :: "int \<Rightarrow> App" where
  "initialApp t =
     \<lparr>gameState = title, score = 0, highScore = 0, orbs = [], obstacles = [],
      lives = 3, level = 1, timers = [], now = t, draws = 0\<rparr>"

subsection \<open>Entity generator\<close>

text \<open>
  \<^verbatim>\<open>randomPosition(range)\<close> draws three numbers; \<open>d\<close> is the index of the first
  and \<open>rng\<close> the source's \<^verbatim>\<open>range\<close>.
\<close>

definition randomPosition :: "(nat \<Rightarrow> real) \<Rightarrow> nat \<Rightarrow> real \<Rightarrow> vec3" where
  "randomPosition rnd d rng =
     ((rnd d - 0.5) * rng, (rnd (d + 1) - 0.5) * rng, (rnd (d + 2) - 0.5) * rng)"

definition colors :: "string list" where
  "colors = [''#00ffff'', ''#ff00ff'', ''#ffff00'', ''#00ff00'', ''#ff6600'']"

text \<open>Array indexing of JavaScript: \<^verbatim>\<open>undefined\<close> (here \<open>None\<close>) out of range.\<close>

definition at_index :: "'a list \<Rightarrow> int \<Rightarrow> 'a option" where
  "at_index xs k = (if 0 \<le> k \<and> k < int (length xs) then Some (xs ! nat k) else None)"

text \<open>
  The element that the mapping function of \<^verbatim>\<open>generateOrbs\<close> builds for index
  \<open>i\<close>: one clock reading, then five draws (three for the position, one for the
  colour, one for the points), in the order of the object literal.
\<close>

definition newOrb :: "(nat \<Rightarrow> real) \<Rightarrow> int \<Rightarrow> nat \<Rightarrow> nat \<Rightarrow> Orb" where
  "newOrb rnd t d i =
     \<lparr>orb_id = t + int i,
      orb_position = randomPosition rnd d 15,
      color = at_index colors \<lfloor>rnd (d + 3) * real (length colors)\<rfloor>,
      points = \<lfloor>rnd (d + 4) * 50\<rfloor> + 10\<rparr>"

definition generateOrbsAt :: "(nat \<Rightarrow> real) \<Rightarrow> int \<Rightarrow> nat \<Rightarrow> nat \<Rightarrow> Orb list" where
  "generateOrbsAt rnd t d count = map (\<lambda>i. newOrb rnd t (d + 5 * i) i) [0..<count]"

definition newObstacle :: "(nat \<Rightarrow> real) \<Rightarrow> int \<Rightarrow> nat \<Rightarrow> nat \<Rightarrow> Obstacle" where
  "newObstacle rnd t d i =
     \<lparr>obs_id = t + int i + 1000,
      obs_position = ((rnd d - 0.5) * 12, (rnd (d + 1) - 0.5) * 8, - 10 - rnd (d + 2) * 20),
      speed = 1 + rnd (d + 3) * 2\<rparr>"

definition generateObstaclesAt :: "(nat \<Rightarrow> real) \<Rightarrow> int \<Rightarrow> nat \<Rightarrow> nat \<Rightarrow> Obstacle list" where
  "generateObstaclesAt rnd t d count = map (\<lambda>i. newObstacle rnd t (d + 4 * i) i) [0..<count]"

text \<open>
  \<^verbatim>\<open>generateOrbs(count)\<close> and \<^verbatim>\<open>generateObstacles(count)\<close> in a state: the
  entities, and the state with the draws consumed.
\<close>

definition generateOrbs :: "(nat \<Rightarrow> real) \<Rightarrow> nat \<Rightarrow> App \<Rightarrow> Orb list \<times> App" where
  "generateOrbs rnd count st =
     (generateOrbsAt rnd (now st) (draws st) count, st\<lparr>draws := draws st + 5 * count\<rparr>)"

definition generateObstacles :: "(nat \<Rightarrow> real) \<Rightarrow> nat \<Rightarrow> App \<Rightarrow> Obstacle list \<times> App" where
  "generateObstacles rnd count st =
     (generateObstaclesAt rnd (now st) (draws st) count, st\<lparr>draws := draws st + 4 * count\<rparr>)"

subsection \<open>Game state machine (the handlers of \<^verbatim>\<open>App\<close>)\<close>

text \<open>
  \<^verbatim>\<open>startGame\<close>: six state setters in the order of the source.
\<close>

definition startGame :: "(nat \<Rightarrow> real) \<Rightarrow> App \<Rightarrow> App" where
  "startGame rnd st =
     (let s1 = st\<lparr>gameState := playing, score := 0, lives := 3, level := 1\<rparr>;
          (os, s2) = generateOrbs rnd 10 s1;
          s3 = s2\<lparr>orbs := os\<rparr>;
          (bs, s4) = generateObstacles rnd 5 s3
      in s4\<lparr>obstacles := bs\<rparr>)"

text \<open>
  The body of the level-up branch inside the \<^verbatim>\<open>setScore\<close> updater of
  \<^verbatim>\<open>handleCollect\<close>: \<^verbatim>\<open>setLevel(l => l + 1)\<close>, then three orbs and two
  obstacles appended to the lists of the moment.
\<close>

definition levelUp :: "(nat \<Rightarrow> real) \<Rightarrow> App \<Rightarrow> App" where
  "levelUp rnd st =
     (let s1 = st\<lparr>level := level st + 1\<rparr>;
          (os, s2) = generateOrbs rnd 3 s1;
          s3 = s2\<lparr>orbs := orbs s2 @ os\<rparr>;
          (bs, s4) = generateObstacles rnd 2 s3
      in s4\<lparr>obstacles := obstacles s4 @ bs\<rparr>)"

text \<open>
  \<^verbatim>\<open>handleCollect(id, points)\<close>. \<open>prev\<close> is the argument of the functional
  update, the score of the moment. \<^verbatim>\<open>setTimeout(..., 500)\<close> registers a callback
  due 500 ms after the clock reading of the call.
\<close>

definition handleCollect :: "(nat \<Rightarrow> real) \<Rightarrow> int \<Rightarrow> int \<Rightarrow> App \<Rightarrow> App" where
  "handleCollect rnd ident pts st =
     (let prev = score st;
          newScore = prev + pts;
          s1 = (if \<lfloor>real_of_int newScore / 200\<rfloor> > \<lfloor>real_of_int prev / 200\<rfloor>
                then levelUp rnd st else st);
          s2 = s1\<lparr>score := newScore\<rparr>;
          s3 = s2\<lparr>orbs := filter (\<lambda>orb. orb_id orb \<noteq> ident) (orbs s2)\<rparr>
      in s3\<lparr>timers := timers s3 @ [now s3 + 500]\<rparr>)"

text \<open>
  The callback that \<^verbatim>\<open>handleCollect\<close> hands to \<^verbatim>\<open>setTimeout\<close>:
  \<^verbatim>\<open>setOrbs(prev => [...prev, ...generateOrbs(1)])\<close>.
\<close>

definition replenish :: "(nat \<Rightarrow> real) \<Rightarrow> App \<Rightarrow> App" where
  "replenish rnd st = (let (os, s1) = generateOrbs rnd 1 st in s1\<lparr>orbs := orbs s1 @ os\<rparr>)"

text \<open>
  \<^verbatim>\<open>handleHit\<close> is \<^verbatim>\<open>useCallback(..., [score])\<close>: the \<^verbatim>\<open>score\<close> it reads is
  the one of the render that created the closure, here the parameter \<open>rendered\<close>;
  \<^verbatim>\<open>prev\<close> and \<^verbatim>\<open>h\<close> are the lives and the high score of the moment.
\<close>

definition handleHit :: "int \<Rightarrow> App \<Rightarrow> App" where
  "handleHit rendered st =
     (let newLives = lives st - 1;
          s1 = (if newLives \<le> 0
                then st\<lparr>gameState := gameover, highScore := max (highScore st) rendered\<rparr>
                else st)
      in s1\<lparr>lives := newLives\<rparr>)"

subsection \<open>Collision evaluator (\<^verbatim>\<open>handlePositionChange\<close> of \<^verbatim>\<open>GameScene\<close>)\<close>

text \<open>\<^verbatim>\<open>Vector3.distanceTo\<close> of three.js: the root of the squared distance.\<close>

fun distanceToSquared :: "vec3 \<Rightarrow> vec3 \<Rightarrow> real" where
  "distanceToSquared (px, py, pz) (qx, qy, qz) =
     (px - qx) * (px - qx) + (py - qy) * (py - qy) + (pz - qz) * (pz - qz)"

definition distanceTo :: "vec3 \<Rightarrow> vec3 \<Rightarrow> real" where
  "distanceTo p q = sqrt (distanceToSquared p q)"

text \<open>
  The two \<^verbatim>\<open>forEach\<close> loops. \<open>c\<close> is the set held by the ref \<^verbatim>\<open>collectedIds\<close>,
  \<open>s\<close> the state that the callbacks \<^verbatim>\<open>onCollect\<close> and \<^verbatim>\<open>onHit\<close> act on (the
  component receives them as props, so they are parameters here).
\<close>

fun checkOrbs :: "(int \<Rightarrow> int \<Rightarrow> 's \<Rightarrow> 's) \<Rightarrow> vec3 \<Rightarrow> Orb list \<Rightarrow> int set \<times> 's \<Rightarrow> int set \<times> 's" where
  "checkOrbs onCollect pos [] cs = cs"
| "checkOrbs onCollect pos (orb # rest) (c, s) =
     (if orb_id orb \<in> c then checkOrbs onCollect pos rest (c, s)
      else if distanceTo pos (orb_position orb) < 0.8
        then checkOrbs onCollect pos rest
               (insert (orb_id orb) c, onCollect (orb_id orb) (points orb) s)
        else checkOrbs onCollect pos rest (c, s))"

fun checkObstacles :: "('s \<Rightarrow> 's) \<Rightarrow> vec3 \<Rightarrow> Obstacle list \<Rightarrow> 's \<Rightarrow> 's" where
  "checkObstacles onHit pos [] s = s"
| "checkObstacles onHit pos (obs # rest) s =
     (if distanceTo pos (obs_position obs) < 1.2
      then checkObstacles onHit pos rest (onHit s)
      else checkObstacles onHit pos rest s)"

definition handlePositionChange ::
  "(int \<Rightarrow> int \<Rightarrow> 's \<Rightarrow> 's) \<Rightarrow> ('s \<Rightarrow> 's) \<Rightarrow> bool \<Rightarrow> Orb list \<Rightarrow> Obstacle list
     \<Rightarrow> vec3 \<Rightarrow> int set \<times> 's \<Rightarrow> int set \<times> 's" where
  "handlePositionChange onCollect onHit gameActive os bs pos cs =
     (if \<not> gameActive then cs
      else (case checkOrbs onCollect pos os cs of
              (c, s) \<Rightarrow> (c, checkObstacles onHit pos bs s)))"

text \<open>
  The events of one call: the callbacks that record what they are called with.
\<close>

datatype Event = CollectEv int int | HitEv

definition emitted :: "bool \<Rightarrow> Orb list \<Rightarrow> Obstacle list \<Rightarrow> vec3 \<Rightarrow> int set \<Rightarrow> int set \<times> Event list" where
  "emitted gameActive os bs pos c =
     handlePositionChange (\<lambda>i p tr. tr @ [CollectEv i p]) (\<lambda>tr. tr @ [HitEv])
       gameActive os bs pos (c, [])"

fun collectedOf :: "Event list \<Rightarrow> int list" where
  "collectedOf [] = []"
| "collectedOf (CollectEv i p # es) = i # collectedOf es"
| "collectedOf (HitEv # es) = collectedOf es"

fun hitsOf :: "Event list \<Rightarrow> nat" where
  "hitsOf [] = 0"
| "hitsOf (CollectEv i p # es) = hitsOf es"
| "hitsOf (HitEv # es) = Suc (hitsOf es)"

text \<open>
  Handing an event to the callbacks, and the events of a sequence of calls, each
  call with the props of its own render (\<^verbatim>\<open>gameActive\<close>, orbs, obstacles) and its
  own position sample, the \<^verbatim>\<open>collectedIds\<close> set carried from call to call.
\<close>

fun deliver :: "(int \<Rightarrow> int \<Rightarrow> 's \<Rightarrow> 's) \<Rightarrow> ('s \<Rightarrow> 's) \<Rightarrow> 's \<Rightarrow> Event \<Rightarrow> 's" where
  "deliver onCollect onHit s (CollectEv i p) = onCollect i p s"
| "deliver onCollect onHit s HitEv = onHit s"

fun emittedFrames :: "(bool \<times> Orb list \<times> Obstacle list \<times> vec3) list \<Rightarrow> int set \<Rightarrow> int set \<times> Event list" where
  "emittedFrames [] c = (c, [])"
| "emittedFrames ((gameActive, os, bs, pos) # fs) c =
     (case emitted gameActive os bs pos c of
        (c', es) \<Rightarrow> (case emittedFrames fs c' of (c'', es') \<Rightarrow> (c'', es @ es')))"

subsection \<open>The assembled application\<close>

text \<open>
  One rendered frame: \<^verbatim>\<open>useFrame\<close> of \<^verbatim>\<open>PlayerShip\<close> calls
  \<^verbatim>\<open>handlePositionChange\<close> with the props of the last render of
  \<^verbatim>\<open>GameScene\<close>: the orbs, the obstacles, \<^verbatim>\<open>gameActive\<close> and, inside
  \<^verbatim>\<open>onHit\<close>, the score of that render. The state is the pair of the
  \<^verbatim>\<open>collectedIds\<close> set and the cells of \<^verbatim>\<open>App\<close>.
\<close>

fun frame :: "(nat \<Rightarrow> real) \<Rightarrow> vec3 \<Rightarrow> int set \<times> App \<Rightarrow> int set \<times> App" where
  "frame rnd pos (c, st) =
     handlePositionChange (handleCollect rnd) (handleHit (score st))
       (gameState st = playing) (orbs st) (obstacles st) pos (c, st)"

text \<open>
  The START GAME and PLAY AGAIN buttons exist in the title and game-over screens
  only. \<^verbatim>\<open>GameScene\<close> is mounted, with a new empty \<^verbatim>\<open>collectedIds\<close>, when the
  state leaves \<^verbatim>\<open>title\<close>; it stays mounted in \<^verbatim>\<open>playing\<close> and \<^verbatim>\<open>gameover\<close>.
\<close>

fun clickStart :: "(nat \<Rightarrow> real) \<Rightarrow> int set \<times> App \<Rightarrow> int set \<times> App" where
  "clickStart rnd (c, st) =
     (if gameState st = playing then (c, st)
      else ((if gameState st = title then {} else c), startGame rnd st))"

text \<open>The clock moves on by \<open>dt\<close> milliseconds.\<close>

definition advance :: "nat \<Rightarrow> App \<Rightarrow> App" where
  "advance dt st = st\<lparr>now := now st + int dt\<rparr>"

text \<open>The oldest pending timer runs its callback, once its delay has passed.\<close>

definition fireTimer :: "(nat \<Rightarrow> real) \<Rightarrow> App \<Rightarrow> App" where
  "fireTimer rnd st =
     (case timers st of
        [] \<Rightarrow> st
      | due # rest \<Rightarrow> if due \<le> now st then replenish rnd (st\<lparr>timers := rest\<rparr>) else st)"

text \<open>
  A sequence of events handed to the handlers of \<^verbatim>\<open>App\<close>, each \<^verbatim>\<open>Hit\<close> through
  the \<^verbatim>\<open>handleHit\<close> closure of some render, whose score comes with the event.
\<close>

definition deliverAll :: "(nat \<Rightarrow> real) \<Rightarrow> App \<Rightarrow> (int \<times> Event) list \<Rightarrow> App" where
  "deliverAll rnd st revs =
     foldl (\<lambda>s (rendered, e). deliver (handleCollect rnd) (handleHit rendered) s e) st revs"

datatype Action = Start | Frame vec3 | Wait nat | Timeout

fun step :: "(nat \<Rightarrow> real) \<Rightarrow> int set \<times> App \<Rightarrow> Action \<Rightarrow> int set \<times> App" where
  "step rnd cs Start = clickStart rnd cs"
| "step rnd cs (Frame pos) = frame rnd pos cs"
| "step rnd (c, st) (Wait dt) = (c, advance dt st)"
| "step rnd (c, st) Timeout = (c, fireTimer rnd st)"

definition run :: "(nat \<Rightarrow> real) \<Rightarrow> int set \<times> App \<Rightarrow> Action list \<Rightarrow> int set \<times> App" where
  "run rnd cs acts = foldl (step rnd) cs acts"

text \<open>\<^verbatim>\<open>Math.random()\<close> returns a number at least 0 and less than 1.\<close>

definition unit_random :: "(nat \<Rightarrow> real) \<Rightarrow> bool" where
  "unit_random rnd = (\<forall>k. 0 \<le> rnd k \<and> rnd k < 1)"

text \<open>A random source for the examples: every draw is one half.\<close>

definition halfRandom :: "nat \<Rightarrow> real" where
  "halfRandom k = 1 / 2"

subsection \<open>Generator: sizes and ranges\<close>

lemma length_generateOrbsAt: "length (generateOrbsAt rnd t d count) = count"
  by (simp add: generateOrbsAt_def)

lemma length_generateObstaclesAt: "length (generateObstaclesAt rnd t d count) = count"
  by (simp add: generateObstaclesAt_def)

lemma scaled_centered_range:
  fixes r :: real
  assumes "0 \<le> r" and "r < 1"
  shows "- 7.5 \<le> (r - 0.5) * 15 \<and> (r - 0.5) * 15 \<le> 7.5"
  using assms by simp

lemma floor_points_range:
  fixes r :: real
  assumes "0 \<le> r" and "r < 1"
  shows "10 \<le> \<lfloor>r * 50\<rfloor> + 10 \<and> \<lfloor>r * 50\<rfloor> + 10 \<le> 59"
proof -
  have "0 \<le> r * 50" using assms by simp
  then have lo: "0 \<le> \<lfloor>r * 50\<rfloor>" by simp
  have "r * 50 < 50" using assms by simp
  then have "\<lfloor>r * 50\<rfloor> < 50" by (simp add: floor_less_iff)
  with lo show ?thesis by simp
qed

text \<open>
  C9. Every orb that \<^verbatim>\<open>generateOrbs\<close> returns has its three coordinates in
  \<open>[-7.5, 7.5]\<close> and an integer point value in \<open>[10, 59]\<close>, for every count,
  clock reading and state, whenever the random source yields numbers in \<open>[0, 1)\<close>.
\<close>

theorem generateOrbs_ranges:
  assumes "unit_random rnd"
    and "orb \<in> set (fst (generateOrbs rnd count st))"
  shows "(case orb_position orb of (x, y, z) \<Rightarrow>
            - 7.5 \<le> x \<and> x \<le> 7.5 \<and> - 7.5 \<le> y \<and> y \<le> 7.5 \<and> - 7.5 \<le> z \<and> z \<le> 7.5)
         \<and> 10 \<le> points orb \<and> points orb \<le> 59"
proof -
  from assms(2) obtain i where orb: "orb = newOrb rnd (now st) (draws st + 5 * i) i"
    by (auto simp: generateOrbs_def generateOrbsAt_def)
  have u: "\<And>k. 0 \<le> rnd k \<and> rnd k < 1"
    using assms(1) by (simp add: unit_random_def)
  have pos: "\<And>k. - 7.5 \<le> (rnd k - 0.5) * 15 \<and> (rnd k - 0.5) * 15 \<le> 7.5"
    using u scaled_centered_range by blast
  have pts: "\<And>k. 10 \<le> \<lfloor>rnd k * 50\<rfloor> + 10 \<and> \<lfloor>rnd k * 50\<rfloor> + 10 \<le> 59"
    using u floor_points_range by blast
  show ?thesis
    unfolding orb newOrb_def randomPosition_def
    using pos pts by simp
qed

theorem generateOrbs_ranges_witness:
  "unit_random halfRandom
   \<and> newOrb halfRandom 1000 0 0 \<in> set (fst (generateOrbs halfRandom 1 (initialApp 1000)))
   \<and> orb_position (newOrb halfRandom 1000 0 0) = (0, 0, 0)
   \<and> points (newOrb halfRandom 1000 0 0) = 35
   \<and> 10 \<le> points (newOrb halfRandom 1000 0 0) \<and> points (newOrb halfRandom 1000 0 0) \<le> 59"
proof -
  have u: "unit_random halfRandom" by (simp add: unit_random_def halfRandom_def)
  have m: "newOrb halfRandom 1000 0 0 \<in> set (fst (generateOrbs halfRandom 1 (initialApp 1000)))"
    by (simp add: generateOrbs_def generateOrbsAt_def initialApp_def)
  have e: "orb_position (newOrb halfRandom 1000 0 0) = (0, 0, 0) \<and> points (newOrb halfRandom 1000 0 0) = 35"
    by (simp add: newOrb_def randomPosition_def halfRandom_def)
  show ?thesis using u m e generateOrbs_ranges [OF u m] by simp
qed

subsection \<open>The handlers, field by field\<close>

lemma fst_generateOrbs: "fst (generateOrbs rnd n st) = generateOrbsAt rnd (now st) (draws st) n"
  by (simp add: generateOrbs_def)

lemma startGame_eq:
  "startGame rnd st =
     st\<lparr>gameState := playing, score := 0, lives := 3, level := 1,
        draws := draws st + 70,
        orbs := generateOrbsAt rnd (now st) (draws st) 10,
        obstacles := generateObstaclesAt rnd (now st) (draws st + 50) 5\<rparr>"
  by (simp add: startGame_def generateOrbs_def generateObstacles_def Let_def)

lemma levelUp_eq:
  "levelUp rnd st =
     st\<lparr>level := level st + 1,
        draws := draws st + 23,
        orbs := orbs st @ generateOrbsAt rnd (now st) (draws st) 3,
        obstacles := obstacles st @ generateObstaclesAt rnd (now st) (draws st + 15) 2\<rparr>"
  by (simp add: levelUp_def generateOrbs_def generateObstacles_def Let_def)

lemma replenish_eq:
  "replenish rnd st =
     st\<lparr>draws := draws st + 5, orbs := orbs st @ generateOrbsAt rnd (now st) (draws st) 1\<rparr>"
  by (simp add: replenish_def generateOrbs_def Let_def)

lemma floor_div_200: "\<lfloor>real_of_int n / 200\<rfloor> = n div 200"
  using floor_divide_of_int_eq [of n 200, where ?'a = real] by simp

lemma distinct_ids_generateOrbsAt: "distinct (map orb_id (generateOrbsAt rnd t d n))"
  by (simp add: generateOrbsAt_def newOrb_def distinct_map comp_def inj_on_def)

lemma distinct_ids_generateObstaclesAt: "distinct (map obs_id (generateObstaclesAt rnd t d n))"
  by (simp add: generateObstaclesAt_def newObstacle_def distinct_map comp_def inj_on_def)

lemma handleCollect_eq:
  "handleCollect rnd ident pts st =
     (if (score st + pts) div 200 > score st div 200
      then st\<lparr>level := level st + 1,
              draws := draws st + 23,
              obstacles := obstacles st @ generateObstaclesAt rnd (now st) (draws st + 15) 2,
              score := score st + pts,
              orbs := filter (\<lambda>orb. orb_id orb \<noteq> ident)
                        (orbs st @ generateOrbsAt rnd (now st) (draws st) 3),
              timers := timers st @ [now st + 500]\<rparr>
      else st\<lparr>score := score st + pts,
              orbs := filter (\<lambda>orb. orb_id orb \<noteq> ident) (orbs st),
              timers := timers st @ [now st + 500]\<rparr>)"
  by (simp add: handleCollect_def levelUp_eq floor_div_200 Let_def)

subsection \<open>Starting a game\<close>

text \<open>
  C6. Every call of \<^verbatim>\<open>startGame\<close> yields phase playing, score 0, lives 3, level 1,
  the live orbs being exactly the 10 orbs of \<^verbatim>\<open>generateOrbs(10)\<close> and the live
  obstacles exactly the 5 obstacles of \<^verbatim>\<open>generateObstacles(5)\<close>, whatever the lists
  held before; within each list the ids are distinct. From the title and the game-over
  screen the start button runs exactly \<^verbatim>\<open>startGame\<close>.
\<close>

theorem startGame_resets:
  "gameState (startGame rnd st) = playing
   \<and> score (startGame rnd st) = 0
   \<and> lives (startGame rnd st) = 3
   \<and> level (startGame rnd st) = 1
   \<and> orbs (startGame rnd st) = generateOrbsAt rnd (now st) (draws st) 10
   \<and> length (orbs (startGame rnd st)) = 10
   \<and> distinct (map orb_id (orbs (startGame rnd st)))
   \<and> obstacles (startGame rnd st) = generateObstaclesAt rnd (now st) (draws st + 50) 5
   \<and> length (obstacles (startGame rnd st)) = 5
   \<and> distinct (map obs_id (obstacles (startGame rnd st)))
   \<and> (gameState st = title \<or> gameState st = gameover
        \<longrightarrow> snd (clickStart rnd (c, st)) = startGame rnd st)"
  by (simp add: startGame_eq length_generateOrbsAt length_generateObstaclesAt
      distinct_ids_generateOrbsAt distinct_ids_generateObstaclesAt)

theorem startGame_resets_witness:
  "(gameState (initialApp 1000) = title \<or> gameState (initialApp 1000) = gameover)
   \<and> snd (clickStart halfRandom ({}, initialApp 1000)) = startGame halfRandom (initialApp 1000)
   \<and> gameState (startGame halfRandom (initialApp 1000)) = playing
   \<and> length (orbs (startGame halfRandom (initialApp 1000))) = 10
   \<and> length (obstacles (startGame halfRandom (initialApp 1000))) = 5"
proof -
  have t: "gameState (initialApp 1000) = title \<or> gameState (initialApp 1000) = gameover"
    by (simp add: initialApp_def)
  show ?thesis
    using t startGame_resets [of halfRandom "initialApp 1000" "{}"] by blast
qed

subsection \<open>Collecting an orb\<close>



subsection \<open>Replenishment\<close>

text \<open>
  C7. Every \<^verbatim>\<open>handleCollect\<close> registers one timer, due 500 ms after the call. A
  timer does nothing before it is due; when it runs, it appends exactly the one orb
  of \<^verbatim>\<open>generateOrbs(1)\<close> to the orb list of that moment and leaves the phase as it
  is, in whatever phase the game is. Neither \<^verbatim>\<open>startGame\<close> nor \<^verbatim>\<open>handleHit\<close> nor
  the passing of time removes a pending timer, so it still runs after a game over or a
  restart.
\<close>

theorem replenishment_unconditional:
  "timers (handleCollect rnd ident pts st) = timers st @ [now st + 500]
   \<and> (timers st = due # rest \<and> now st < due \<longrightarrow> fireTimer rnd st = st)
   \<and> (timers st = due # rest \<and> due \<le> now st \<longrightarrow>
        orbs (fireTimer rnd st) = orbs st @ fst (generateOrbs rnd 1 st)
        \<and> length (orbs (fireTimer rnd st)) = length (orbs st) + 1
        \<and> gameState (fireTimer rnd st) = gameState st
        \<and> timers (fireTimer rnd st) = rest)
   \<and> timers (startGame rnd st) = timers st
   \<and> timers (handleHit rendered st) = timers st
   \<and> timers (advance dt st) = timers st"
  by (simp add: handleCollect_eq fireTimer_def replenish_eq startGame_eq handleHit_def
      advance_def fst_generateOrbs length_generateOrbsAt Let_def)

theorem replenishment_unconditional_witness:
  "timers (advance 500 (startGame halfRandom (handleCollect halfRandom 1 10 (initialApp 0)))) = 500 # []
   \<and> 500 \<le> now (advance 500 (startGame halfRandom (handleCollect halfRandom 1 10 (initialApp 0))))
   \<and> length (orbs (fireTimer halfRandom
        (advance 500 (startGame halfRandom (handleCollect halfRandom 1 10 (initialApp 0)))))) = 11
   \<and> timers (advance 499 (startGame halfRandom (handleCollect halfRandom 1 10 (initialApp 0)))) = 500 # []
   \<and> now (advance 499 (startGame halfRandom (handleCollect halfRandom 1 10 (initialApp 0)))) < 500
   \<and> fireTimer halfRandom
        (advance 499 (startGame halfRandom (handleCollect halfRandom 1 10 (initialApp 0))))
      = advance 499 (startGame halfRandom (handleCollect halfRandom 1 10 (initialApp 0)))"
proof -
  let ?r = halfRandom
  let ?s = "startGame ?r (handleCollect ?r 1 10 (initialApp 0))"
  have a: "timers (advance 500 ?s) = 500 # []" "500 \<le> now (advance 500 ?s)"
    "length (orbs (advance 500 ?s)) = 10"
    by (simp_all add: advance_def startGame_eq handleCollect_eq initialApp_def
        length_generateOrbsAt)
  have b: "timers (advance 499 ?s) = 500 # []" "now (advance 499 ?s) < 500"
    by (simp_all add: advance_def startGame_eq handleCollect_eq initialApp_def)
  have c: "length (orbs (fireTimer ?r (advance 500 ?s))) = length (orbs (advance 500 ?s)) + 1"
    using a replenishment_unconditional [of ?r 1 10 "advance 500 ?s" 500 "[]" 0 0] by blast
  have d: "fireTimer ?r (advance 499 ?s) = advance 499 ?s"
    using b replenishment_unconditional [of ?r 1 10 "advance 499 ?s" 500 "[]" 0 0] by blast
  show ?thesis
    using a b c d by simp
qed

subsection \<open>The events of a frame\<close>

text \<open>
  The callbacks are parameters of the evaluator, so what it does with any pair of
  callbacks is to hand them, in order, the events that the recording callbacks
  collect.
\<close>

lemma checkOrbs_log:
  "checkOrbs (\<lambda>i p tr. tr @ [CollectEv i p]) pos os (c, tr) =
     (fst (checkOrbs (\<lambda>i p tr. tr @ [CollectEv i p]) pos os (c, [])),
      tr @ snd (checkOrbs (\<lambda>i p tr. tr @ [CollectEv i p]) pos os (c, [])))"
proof (induction os arbitrary: c tr)
  case Nil
  then show ?case by simp
next
  case (Cons orb rest)
  show ?case
    using Cons.IH [of c tr] Cons.IH [of "insert (orb_id orb) c" "tr @ [CollectEv (orb_id orb) (points orb)]"]
      Cons.IH [of "insert (orb_id orb) c" "[CollectEv (orb_id orb) (points orb)]"]
    by simp
qed

lemma checkObstacles_log:
  "checkObstacles (\<lambda>tr. tr @ [HitEv]) pos bs tr = tr @ checkObstacles (\<lambda>tr. tr @ [HitEv]) pos bs []"
proof (induction bs arbitrary: tr)
  case Nil
  then show ?case by simp
next
  case (Cons b rest)
  show ?case
    using Cons.IH [of tr] Cons.IH [of "tr @ [HitEv]"] Cons.IH [of "[HitEv]"] by simp
qed

lemma checkOrbs_deliver:
  "checkOrbs onCollect pos os (c, s) =
     (fst (checkOrbs (\<lambda>i p tr. tr @ [CollectEv i p]) pos os (c, [])),
      foldl (deliver onCollect onHit) s (snd (checkOrbs (\<lambda>i p tr. tr @ [CollectEv i p]) pos os (c, []))))"
proof (induction os arbitrary: c s)
  case Nil
  then show ?case by simp
next
  case (Cons orb rest)
  show ?case
    using Cons.IH [of c s] Cons.IH [of "insert (orb_id orb) c" "onCollect (orb_id orb) (points orb) s"]
      checkOrbs_log [of pos rest "insert (orb_id orb) c" "[CollectEv (orb_id orb) (points orb)]"]
    by simp
qed

lemma checkObstacles_deliver:
  "checkObstacles onHit pos bs s =
     foldl (deliver onCollect onHit) s (checkObstacles (\<lambda>tr. tr @ [HitEv]) pos bs [])"
proof (induction bs arbitrary: s)
  case Nil
  then show ?case by simp
next
  case (Cons b rest)
  show ?case
    using Cons.IH [of s] Cons.IH [of "onHit s"] checkObstacles_log [of pos rest "[HitEv]"]
    by simp
qed

lemma emitted_eq:
  "emitted gameActive os bs pos c =
     (if \<not> gameActive then (c, [])
      else (fst (checkOrbs (\<lambda>i p tr. tr @ [CollectEv i p]) pos os (c, [])),
            snd (checkOrbs (\<lambda>i p tr. tr @ [CollectEv i p]) pos os (c, []))
              @ checkObstacles (\<lambda>tr. tr @ [HitEv]) pos bs []))"
  using checkObstacles_log [of pos bs "snd (checkOrbs (\<lambda>i p tr. tr @ [CollectEv i p]) pos os (c, []))"]
  by (simp add: emitted_def handlePositionChange_def case_prod_beta)

lemma handlePositionChange_deliver:
  "handlePositionChange onCollect onHit gameActive os bs pos (c, s) =
     (fst (emitted gameActive os bs pos c),
      foldl (deliver onCollect onHit) s (snd (emitted gameActive os bs pos c)))"
proof (cases gameActive)
  case False
  then show ?thesis by (simp add: emitted_eq handlePositionChange_def)
next
  case True
  let ?o = "checkOrbs (\<lambda>i p tr. tr @ [CollectEv i p]) pos os (c, [])"
  have o: "checkOrbs onCollect pos os (c, s) = (fst ?o, foldl (deliver onCollect onHit) s (snd ?o))"
    by (rule checkOrbs_deliver)
  have b: "checkObstacles onHit pos bs (foldl (deliver onCollect onHit) s (snd ?o)) =
      foldl (deliver onCollect onHit) (foldl (deliver onCollect onHit) s (snd ?o))
        (checkObstacles (\<lambda>tr. tr @ [HitEv]) pos bs [])"
    by (rule checkObstacles_deliver)
  show ?thesis
    using True by (simp add: emitted_eq handlePositionChange_def o b)
qed

lemma collectedOf_append: "collectedOf (xs @ ys) = collectedOf xs @ collectedOf ys"
  by (induction xs rule: collectedOf.induct) simp_all

lemma hitsOf_append: "hitsOf (xs @ ys) = hitsOf xs + hitsOf ys"
  by (induction xs rule: hitsOf.induct) simp_all

lemma orb_events_Cons:
  "checkOrbs (\<lambda>i p tr. tr @ [CollectEv i p]) pos (orb # rest) (c, []) =
     (if orb_id orb \<in> c then checkOrbs (\<lambda>i p tr. tr @ [CollectEv i p]) pos rest (c, [])
      else if distanceTo pos (orb_position orb) < 0.8
        then (fst (checkOrbs (\<lambda>i p tr. tr @ [CollectEv i p]) pos rest (insert (orb_id orb) c, [])),
              CollectEv (orb_id orb) (points orb)
                # snd (checkOrbs (\<lambda>i p tr. tr @ [CollectEv i p]) pos rest (insert (orb_id orb) c, [])))
        else checkOrbs (\<lambda>i p tr. tr @ [CollectEv i p]) pos rest (c, []))"
  using checkOrbs_log [of pos rest "insert (orb_id orb) c" "[CollectEv (orb_id orb) (points orb)]"]
  by simp

lemma orb_events_set:
  "set (collectedOf (snd (checkOrbs (\<lambda>i p tr. tr @ [CollectEv i p]) pos os (c, [])))) =
     {orb_id x |x. x \<in> set os \<and> orb_id x \<notin> c \<and> distanceTo pos (orb_position x) < 0.8}"
proof (induction os arbitrary: c)
  case Nil
  then show ?case by simp
next
  case (Cons orb rest)
  show ?case
    unfolding orb_events_Cons
    using Cons.IH [of c] Cons.IH [of "insert (orb_id orb) c"]
    by auto
qed

lemma orb_events_fst:
  "fst (checkOrbs (\<lambda>i p tr. tr @ [CollectEv i p]) pos os (c, [])) =
     c \<union> set (collectedOf (snd (checkOrbs (\<lambda>i p tr. tr @ [CollectEv i p]) pos os (c, []))))"
proof (induction os arbitrary: c)
  case Nil
  then show ?case by simp
next
  case (Cons orb rest)
  show ?case
    unfolding orb_events_Cons
    using Cons.IH [of c] Cons.IH [of "insert (orb_id orb) c"]
    by auto
qed

lemma orb_events_distinct:
  "distinct (collectedOf (snd (checkOrbs (\<lambda>i p tr. tr @ [CollectEv i p]) pos os (c, []))))"
proof (induction os arbitrary: c)
  case Nil
  then show ?case by simp
next
  case (Cons orb rest)
  show ?case
    unfolding orb_events_Cons
    using Cons.IH [of c] Cons.IH [of "insert (orb_id orb) c"]
      orb_events_set [of pos rest "insert (orb_id orb) c"]
    by auto
qed

lemma orb_events_no_hits:
  "hitsOf (snd (checkOrbs (\<lambda>i p tr. tr @ [CollectEv i p]) pos os (c, []))) = 0"
proof (induction os arbitrary: c)
  case Nil
  then show ?case by simp
next
  case (Cons orb rest)
  show ?case
    unfolding orb_events_Cons
    using Cons.IH [of c] Cons.IH [of "insert (orb_id orb) c"]
    by simp
qed

lemma obstacle_events_Cons:
  "checkObstacles (\<lambda>tr. tr @ [HitEv]) pos (b # rest) [] =
     (if distanceTo pos (obs_position b) < 1.2
      then HitEv # checkObstacles (\<lambda>tr. tr @ [HitEv]) pos rest []
      else checkObstacles (\<lambda>tr. tr @ [HitEv]) pos rest [])"
  using checkObstacles_log [of pos rest "[HitEv]"] by simp

lemma obstacle_events_hits:
  "hitsOf (checkObstacles (\<lambda>tr. tr @ [HitEv]) pos bs []) =
     length (filter (\<lambda>b. distanceTo pos (obs_position b) < 1.2) bs)"
  by (induction bs) (simp_all add: obstacle_events_Cons del: checkObstacles.simps(2))

lemma obstacle_events_no_collect:
  "collectedOf (checkObstacles (\<lambda>tr. tr @ [HitEv]) pos bs []) = []"
  by (induction bs) (simp_all add: obstacle_events_Cons del: checkObstacles.simps(2))

lemma checkOrbs_skips_collected:
  "A \<subseteq> c \<Longrightarrow>
   checkOrbs onCollect pos (filter (\<lambda>orb. orb_id orb \<notin> A) os) (c, s) = checkOrbs onCollect pos os (c, s)"
proof (induction os arbitrary: c s)
  case Nil
  then show ?case by simp
next
  case (Cons orb rest)
  have 1: "checkOrbs onCollect pos (filter (\<lambda>orb. orb_id orb \<notin> A) rest) (c, s) = checkOrbs onCollect pos rest (c, s)"
    using Cons.IH [of c s] Cons.prems by simp
  have 2: "checkOrbs onCollect pos (filter (\<lambda>orb. orb_id orb \<notin> A) rest) (insert (orb_id orb) c, s') =
       checkOrbs onCollect pos rest (insert (orb_id orb) c, s')" for s'
    using Cons.IH [of "insert (orb_id orb) c" s'] Cons.prems by auto
  show ?case
    using Cons.prems 1 2 by auto
qed

lemma emitted_hits:
  "hitsOf (snd (emitted True os bs pos c)) =
     length (filter (\<lambda>b. distanceTo pos (obs_position b) < 1.2) bs)"
  by (simp add: emitted_eq hitsOf_append orb_events_no_hits obstacle_events_hits)

lemma emitted_collected_set:
  "set (collectedOf (snd (emitted True os bs pos c))) =
     {orb_id x |x. x \<in> set os \<and> orb_id x \<notin> c \<and> distanceTo pos (orb_position x) < 0.8}"
  by (simp add: emitted_eq collectedOf_append obstacle_events_no_collect orb_events_set)

lemma emitted_distinct: "distinct (collectedOf (snd (emitted gameActive os bs pos c)))"
  by (simp add: emitted_eq collectedOf_append obstacle_events_no_collect orb_events_distinct)

lemma emitted_fst:
  "fst (emitted gameActive os bs pos c) = c \<union> set (collectedOf (snd (emitted gameActive os bs pos c)))"
  using orb_events_fst [of pos os c]
  by (simp add: emitted_eq collectedOf_append obstacle_events_no_collect)

lemma emitted_fresh: "set (collectedOf (snd (emitted gameActive os bs pos c))) \<inter> c = {}"
proof (cases gameActive)
  case True
  then show ?thesis using emitted_collected_set [of os bs pos c] by auto
next
  case False
  then show ?thesis by (simp add: emitted_eq)
qed

lemma emittedFrames_facts:
  "distinct (collectedOf (snd (emittedFrames fs c)))
   \<and> set (collectedOf (snd (emittedFrames fs c))) \<inter> c = {}
   \<and> fst (emittedFrames fs c) = c \<union> set (collectedOf (snd (emittedFrames fs c)))"
proof (induction fs arbitrary: c)
  case Nil
  then show ?case by simp
next
  case (Cons f fs)
  obtain g os bs pos where f: "f = (g, os, bs, pos)" by (cases f) auto
  let ?e = "emitted g os bs pos c"
  have ih: "distinct (collectedOf (snd (emittedFrames fs (fst ?e))))
     \<and> set (collectedOf (snd (emittedFrames fs (fst ?e)))) \<inter> fst ?e = {}
     \<and> fst (emittedFrames fs (fst ?e)) = fst ?e \<union> set (collectedOf (snd (emittedFrames fs (fst ?e))))"
    by (rule Cons.IH)
  have e: "fst ?e = c \<union> set (collectedOf (snd ?e))" by (rule emitted_fst)
  have d: "distinct (collectedOf (snd ?e))" by (rule emitted_distinct)
  have n: "set (collectedOf (snd ?e)) \<inter> c = {}" by (rule emitted_fresh)
  have unfold: "emittedFrames (f # fs) c =
      (fst (emittedFrames fs (fst ?e)), snd ?e @ snd (emittedFrames fs (fst ?e)))"
    by (simp add: f case_prod_beta)
  show ?case
    unfolding unfold using ih e d n by (auto simp: collectedOf_append)
qed

lemma frame_deliver:
  "frame rnd pos (c, st) =
     (fst (emitted (gameState st = playing) (orbs st) (obstacles st) pos c),
      foldl (deliver (handleCollect rnd) (handleHit (score st))) st
        (snd (emitted (gameState st = playing) (orbs st) (obstacles st) pos c)))"
  by (simp add: handlePositionChange_deliver)

lemma distanceTo_less_iff:
  "0 < r \<Longrightarrow> (distanceTo p q < r) = (distanceToSquared p q < r * r)"
proof -
  assume r: "0 < r"
  have "distanceTo p q < r \<longleftrightarrow> sqrt (distanceToSquared p q) < sqrt (r * r)"
    using r by (simp add: distanceTo_def)
  then show ?thesis by (simp only: real_sqrt_less_iff)
qed

subsection \<open>Orbs are collected at most once\<close>

text \<open>
  C5. Over any sequence of calls of \<^verbatim>\<open>handlePositionChange\<close>, with whatever
  props and positions, no orb id is the subject of two \<^verbatim>\<open>Collect\<close> events, and
  none that was in the collected set at the start is collected at all. An orb whose id
  is in the collected set is skipped wherever it stands in the list: the call does
  what it would do without such orbs, and when every orb is of that kind and there
  are no obstacles it returns the set and the state untouched.
\<close>

theorem collect_at_most_once:
  "distinct (collectedOf (snd (emittedFrames fs c)))
   \<and> set (collectedOf (snd (emittedFrames fs c))) \<inter> c = {}
   \<and> handlePositionChange onCollect onHit gameActive (filter (\<lambda>orb. orb_id orb \<notin> c) os) bs pos (c, s)
       = handlePositionChange onCollect onHit gameActive os bs pos (c, s)
   \<and> ((\<forall>orb \<in> set os. orb_id orb \<in> c) \<longrightarrow>
        handlePositionChange onCollect onHit gameActive os [] pos (c, s) = (c, s))"
proof -
  have skip: "checkOrbs onCollect pos (filter (\<lambda>orb. orb_id orb \<notin> c) os) (c, s)
      = checkOrbs onCollect pos os (c, s)"
    by (rule checkOrbs_skips_collected) simp
  have none: "\<forall>orb \<in> set os. orb_id orb \<in> c \<Longrightarrow> filter (\<lambda>orb. orb_id orb \<notin> c) os = []"
    by (induction os) auto
  have idle: "\<forall>orb \<in> set os. orb_id orb \<in> c \<Longrightarrow> checkOrbs onCollect pos os (c, s) = (c, s)"
    using skip none by (metis checkOrbs.simps(1))
  show ?thesis
    using emittedFrames_facts [of fs c] skip idle
    by (simp add: handlePositionChange_def)
qed

theorem collect_at_most_once_witness:
  "orb_id \<lparr>orb_id = 1, orb_position = (0, 0, 0), color = Some ''#00ffff'', points = 10\<rparr> \<in> {1}
   \<and> distanceTo (0, 0, 0)
        (orb_position \<lparr>orb_id = 1, orb_position = (0, 0, 0), color = Some ''#00ffff'', points = 10\<rparr>) < 0.8
   \<and> handlePositionChange (handleCollect halfRandom) (handleHit 0) True
        [\<lparr>orb_id = 1, orb_position = (0, 0, 0), color = Some ''#00ffff'', points = 10\<rparr>] []
        (0, 0, 0) ({1}, initialApp 0) = ({1}, initialApp 0)"
proof -
  let ?orb = "\<lparr>orb_id = 1, orb_position = (0, 0, 0), color = Some ''#00ffff'', points = 10\<rparr>"
  have h: "\<forall>orb \<in> set [?orb]. orb_id orb \<in> {1}" by simp
  have near: "distanceTo (0, 0, 0) (orb_position ?orb) < 0.8"
    by (simp add: distanceTo_def)
  show ?thesis
    using h near
      collect_at_most_once [of "[]" "{1}" "handleCollect halfRandom" "handleHit 0" True "[?orb]" "[]"
        "(0, 0, 0)" "initialApp 0"]
    by simp
qed

subsection \<open>Hits\<close>

lemma handleHit_fields:
  "lives (handleHit rendered st) = lives st - 1"
  "gameState (handleHit rendered st) = (if lives st - 1 \<le> 0 then gameover else gameState st)"
  "highScore (handleHit rendered st) =
     (if lives st - 1 \<le> 0 then max (highScore st) rendered else highScore st)"
  "score (handleHit rendered st) = score st"
  by (simp_all add: handleHit_def Let_def)

lemma handleCollect_keeps:
  "lives (handleCollect rnd ident pts st) = lives st"
  "gameState (handleCollect rnd ident pts st) = gameState st"
  "highScore (handleCollect rnd ident pts st) = highScore st"
  by (simp_all add: handleCollect_eq)

lemma deliverAll_Cons:
  "deliverAll rnd st ((rendered, e) # revs) =
     deliverAll rnd (deliver (handleCollect rnd) (handleHit rendered) st e) revs"
  by (simp add: deliverAll_def)

lemma lives_deliverAll:
  "lives (deliverAll rnd st revs) = lives st - int (hitsOf (map snd revs))"
proof (induction revs arbitrary: st)
  case Nil
  then show ?case by (simp add: deliverAll_def)
next
  case (Cons re revs)
  obtain rendered e where re: "re = (rendered, e)" by (cases re) auto
  show ?case
    unfolding re deliverAll_Cons
    by (cases e) (simp_all add: Cons.IH handleHit_fields handleCollect_keeps)
qed

lemma gameState_deliverAll:
  "gameState (deliverAll rnd st revs) =
     (if 0 < hitsOf (map snd revs) \<and> lives st - int (hitsOf (map snd revs)) \<le> 0
      then gameover else gameState st)"
proof (induction revs arbitrary: st)
  case Nil
  then show ?case by (simp add: deliverAll_def)
next
  case (Cons re revs)
  obtain rendered e where re: "re = (rendered, e)" by (cases re) auto
  show ?case
    unfolding re deliverAll_Cons
    by (cases e) (auto simp: Cons.IH handleHit_fields handleCollect_keeps)
qed

lemma foldl_deliver_deliverAll:
  "foldl (deliver (handleCollect rnd) (handleHit rendered)) st es =
     deliverAll rnd st (map (Pair rendered) es)"
  by (induction es arbitrary: st) (simp_all add: deliverAll_def)

lemma frame_deliverAll:
  "frame rnd pos (c, st) =
     (fst (emitted (gameState st = playing) (orbs st) (obstacles st) pos c),
      deliverAll rnd st
        (map (Pair (score st)) (snd (emitted (gameState st = playing) (orbs st) (obstacles st) pos c))))"
  by (simp only: frame_deliver foldl_deliver_deliverAll)

text \<open>
  C8. In a frame evaluated while playing, the number of \<^verbatim>\<open>Hit\<close> events is the
  number of obstacles of the list whose \<^verbatim>\<open>position\<close> lies at a distance below 1.2
  from the position sample, whatever the collected set and the orbs; so the same
  obstacles emit the same hits in the next frame, and nothing stops at the first
  collision. The orbs collected in the frame are those in range of the same sample
  whose id is not yet collected. Outside playing the call emits nothing. In the
  application every such hit takes one life.
\<close>

theorem hits_every_frame:
  "hitsOf (snd (emitted True os bs pos c)) =
     length (filter (\<lambda>b. distanceTo pos (obs_position b) < 1.2) bs)
   \<and> hitsOf (snd (emitted True os' bs pos (fst (emitted True os bs pos c)))) =
     length (filter (\<lambda>b. distanceTo pos (obs_position b) < 1.2) bs)
   \<and> set (collectedOf (snd (emitted True os bs pos c))) =
       {orb_id x |x. x \<in> set os \<and> orb_id x \<notin> c \<and> distanceTo pos (orb_position x) < 0.8}
   \<and> emitted False os bs pos c = (c, [])
   \<and> (gameState st = playing \<longrightarrow>
        lives (snd (frame rnd pos (c, st))) =
          lives st - int (length (filter (\<lambda>b. distanceTo pos (obs_position b) < 1.2) (obstacles st))))"
proof -
  have app: "gameState st = playing \<Longrightarrow>
      lives (snd (frame rnd pos (c, st))) =
        lives st - int (length (filter (\<lambda>b. distanceTo pos (obs_position b) < 1.2) (obstacles st)))"
    unfolding frame_deliverAll
    using emitted_hits [of "orbs st" "obstacles st" pos c]
    by (simp add: lives_deliverAll comp_def)
  have off: "emitted False os bs pos c = (c, [])"
    by (simp add: emitted_eq)
  show ?thesis
    using app off emitted_hits [of os bs pos c]
      emitted_hits [of os' bs pos "fst (emitted True os bs pos c)"]
      emitted_collected_set [of os bs pos c]
    by blast
qed

theorem hits_every_frame_witness:
  "gameState ((initialApp 0)\<lparr>gameState := playing,
       obstacles := [\<lparr>obs_id = 1, obs_position = (0, 0, 0), speed = 1\<rparr>,
                     \<lparr>obs_id = 2, obs_position = (0, 0, - 10), speed = 1\<rparr>]\<rparr>) = playing
   \<and> lives (snd (frame halfRandom (0, 0, 0) ({}, (initialApp 0)\<lparr>gameState := playing,
       obstacles := [\<lparr>obs_id = 1, obs_position = (0, 0, 0), speed = 1\<rparr>,
                     \<lparr>obs_id = 2, obs_position = (0, 0, - 10), speed = 1\<rparr>]\<rparr>))) = 2"
proof -
  let ?st = "(initialApp 0)\<lparr>gameState := playing,
       obstacles := [\<lparr>obs_id = 1, obs_position = (0, 0, 0), speed = 1\<rparr>,
                     \<lparr>obs_id = 2, obs_position = (0, 0, - 10), speed = 1\<rparr>]\<rparr>"
  have p: "gameState ?st = playing" by simp
  have near: "distanceTo (0, 0, 0) (0, 0, 0) < 1.2"
    by (simp add: distanceTo_def)
  have far: "\<not> distanceTo (0, 0, 0) (0, 0, - 10) < 1.2"
    using distanceTo_less_iff [of "1.2" "(0, 0, 0)" "(0, 0, - 10)"] by simp
  have n: "length (filter (\<lambda>b. distanceTo (0, 0, 0) (obs_position b) < 1.2) (obstacles ?st)) = 1"
    using near far by simp
  have l: "lives ?st = 3" by (simp add: initialApp_def)
  have "lives (snd (frame halfRandom (0, 0, 0) ({}, ?st))) =
      lives ?st - int (length (filter (\<lambda>b. distanceTo (0, 0, 0) (obs_position b) < 1.2) (obstacles ?st)))"
    using p hits_every_frame [of "[]" "[]" "(0, 0, 0)" "{}" "[]" ?st halfRandom] by blast
  then show ?thesis using p n l by simp
qed




subsection \<open>High score\<close>


subsection \<open>Identifiers\<close>

text \<open>
  C2 at a failing input. Two orbs collected in one frame register two timers due at
  the same millisecond; both replenishment orbs get the id 1500. Likewise two calls
  of a generator at one clock reading return the same id.
\<close>

theorem generateOrbs_reuses_ids:
  "map orb_id (orbs (snd (run halfRandom
      ({}, (initialApp 1000)\<lparr>gameState := playing,
              orbs := [\<lparr>orb_id = 1, orb_position = (0, 0, 0), color = Some ''#00ffff'', points = 10\<rparr>,
                       \<lparr>orb_id = 2, orb_position = (0, 0, 0), color = Some ''#ff00ff'', points = 10\<rparr>]\<rparr>)
      [Frame (0, 0, 0), Wait 500, Timeout, Timeout]))) = [1500, 1500]
   \<and> map orb_id (fst (generateOrbs halfRandom 1 (initialApp 1000))) = [1000]
   \<and> map orb_id (fst (generateOrbs halfRandom 1 (snd (generateOrbs halfRandom 1 (initialApp 1000))))) = [1000]
   \<and> map obs_id (fst (generateObstacles halfRandom 1 (initialApp 1000))) = [2000]
   \<and> map obs_id (fst (generateObstacles halfRandom 1 (snd (generateObstacles halfRandom 1 (initialApp 1000))))) = [2000]"
  by (simp add: run_def handlePositionChange_def distanceTo_def initialApp_def handleCollect_eq
      advance_def fireTimer_def replenish_eq generateOrbs_def generateObstacles_def
      generateOrbsAt_def generateObstaclesAt_def newOrb_def newObstacle_def)

subsection \<open>The collected set across sessions\<close>

lemma step_grows:
  assumes "gameState st \<noteq> title"
  shows "c \<subseteq> fst (step rnd (c, st) a) \<and> gameState (snd (step rnd (c, st) a)) \<noteq> title"
proof (cases a)
  case Start
  then show ?thesis using assms by (simp add: startGame_eq)
next
  case (Frame pos)
  show ?thesis
    unfolding Frame step.simps frame_deliverAll
    using assms emitted_fst [of "gameState st = playing" "orbs st" "obstacles st" pos c]
    by (simp add: gameState_deliverAll)
next
  case (Wait dt)
  then show ?thesis using assms by (simp add: advance_def)
next
  case Timeout
  then show ?thesis using assms by (simp add: fireTimer_def replenish_eq split: list.splits)
qed

lemma run_grows:
  "gameState st \<noteq> title \<Longrightarrow> c \<subseteq> fst (run rnd (c, st) acts)"
proof (induction acts arbitrary: c st)
  case Nil
  then show ?case by (simp add: run_def)
next
  case (Cons a acts)
  obtain c' st' where s: "step rnd (c, st) a = (c', st')" by (cases "step rnd (c, st) a") auto
  have g: "c \<subseteq> c'" "gameState st' \<noteq> title"
    using step_grows [OF Cons.prems, of c rnd a] s by simp_all
  have "c' \<subseteq> fst (run rnd (c', st') acts)" using Cons.IH [OF g(2)] .
  then show ?case using g(1) s by (simp add: run_def)
qed

text \<open>
  C10. While the game scene is mounted (the phase is not title), no action removes
  an id from the collected set: it only grows along any run. The start action from
  game over resets score, lives and level and replaces the orbs, and leaves the
  collected set as it is; in the next frame the orbs collected are exactly the new
  orbs in range whose id is not in that set.
\<close>

theorem collectedIds_never_cleared:
  assumes "gameState st \<noteq> title"
  shows "c \<subseteq> fst (run rnd (c, st) acts)
    \<and> (gameState st = gameover \<longrightarrow>
         fst (step rnd (c, st) Start) = c
         \<and> score (snd (step rnd (c, st) Start)) = 0
         \<and> lives (snd (step rnd (c, st) Start)) = 3
         \<and> level (snd (step rnd (c, st) Start)) = 1
         \<and> orbs (snd (step rnd (c, st) Start)) = fst (generateOrbs rnd 10 st)
         \<and> set (collectedOf (snd (emitted True (orbs (snd (step rnd (c, st) Start))) bs pos
                  (fst (step rnd (c, st) Start))))) =
             {orb_id x |x. x \<in> set (fst (generateOrbs rnd 10 st)) \<and> orb_id x \<notin> c
                \<and> distanceTo pos (orb_position x) < 0.8})"
  using run_grows [OF assms, of c rnd acts]
  by (simp add: startGame_eq emitted_collected_set fst_generateOrbs)

theorem collectedIds_never_cleared_witness:
  "gameState ((initialApp 0)\<lparr>gameState := gameover\<rparr>) \<noteq> title
   \<and> gameState ((initialApp 0)\<lparr>gameState := gameover\<rparr>) = gameover
   \<and> {7} \<subseteq> fst (run halfRandom ({7}, (initialApp 0)\<lparr>gameState := gameover\<rparr>)
                 [Start, Frame (0, 0, 0), Wait 500, Timeout])
   \<and> fst (step halfRandom ({7}, (initialApp 0)\<lparr>gameState := gameover\<rparr>) Start) = {7}
   \<and> score (snd (step halfRandom ({7}, (initialApp 0)\<lparr>gameState := gameover\<rparr>) Start)) = 0"
proof -
  let ?st = "(initialApp 0)\<lparr>gameState := gameover\<rparr>"
  have h: "gameState ?st \<noteq> title" "gameState ?st = gameover" by simp_all
  show ?thesis
    using h collectedIds_never_cleared [OF h(1), of "{7}" halfRandom
        "[Start, Frame (0, 0, 0), Wait 500, Timeout]" "[]" "(0, 0, 0)"]
    by blast
qed

subsection \<open>Where generated obstacles stand\<close>

text \<open>
  The records of \<^verbatim>\<open>generateObstacles\<close> have \<open>z \<le> -10\<close>, and no handler writes
  the \<^verbatim>\<open>position\<close> of a record afterwards (the \<^verbatim>\<open>Obstacle\<close> component moves its
  mesh only). A position sample in the plane \<open>z = 0\<close>, where the ship moves, is
  therefore never within 1.2 of a generated record.
\<close>

lemma generated_obstacle_out_of_range:
  assumes "unit_random rnd"
    and "b \<in> set (fst (generateObstacles rnd count st))"
  shows "\<not> distanceTo (x, y, 0) (obs_position b) < 1.2"
proof -
  from assms(2) obtain i where b: "b = newObstacle rnd (now st) (draws st + 4 * i) i"
    by (auto simp: generateObstacles_def generateObstaclesAt_def)
  obtain bx bz_r where p: "obs_position b = ((rnd (draws st + 4 * i) - 0.5) * 12, bx, - 10 - bz_r * 20)"
    and r: "0 \<le> bz_r"
    using assms(1) by (simp add: b newObstacle_def unit_random_def)
  have z: "100 \<le> (10 + bz_r * 20) * (10 + bz_r * 20)"
  proof -
    have "10 \<le> 10 + bz_r * 20" using r by simp
    then have "10 * 10 \<le> (10 + bz_r * 20) * (10 + bz_r * 20)"
      by (intro mult_mono) simp_all
    then show ?thesis by simp
  qed
  have sq: "z * z \<le> distanceToSquared (x, y, 0) (a, bq, z)" for a bq z :: real
    by simp
  have "(- 10 - bz_r * 20) * (- 10 - bz_r * 20) = (10 + bz_r * 20) * (10 + bz_r * 20)"
    by (simp add: algebra_simps)
  then have "100 \<le> distanceToSquared (x, y, 0) (obs_position b)"
    using z sq [of "- 10 - bz_r * 20" "(rnd (draws st + 4 * i) - 0.5) * 12" bx]
    unfolding p by linarith
  then have "\<not> distanceToSquared (x, y, 0) (obs_position b) < 1.2 * 1.2" by simp
  then show ?thesis
    using distanceTo_less_iff [of "1.2" "(x, y, 0)" "obs_position b"] by simp
qed

end
